theory Spec2Isabelle
  imports
    Complex_Main
    "HOL-Library.AList"
    "HOL-Library.Char_ord"
    "HOL-Library.List_Lexorder"
    "HOL-Library.Product_Lexorder"
    "HOL-Library.Multiset"
begin

section \<open>The inventory ledger of \<^verbatim>\<open>inventory_gui.py\<close>\<close>

text \<open>
  The development embeds the two classes \<^verbatim>\<open>Item\<close> and \<^verbatim>\<open>InventoryManager\<close>.
  Mutation is explicit state passing: every method takes the object and returns the
  updated object next to its return value.
\<close>

subsection \<open>Dates\<close>

text \<open>
  A \<^verbatim>\<open>datetime.date\<close> is the triple (year, month, day). Python compares dates by
  year, then month, then day, which is the lexicographic order of the triple.
\<close>

type_synonym date = "nat \<times> nat \<times> nat"

definition is_leap :: "nat \<Rightarrow> bool" where
  "is_leap y = (y mod 4 = 0 \<and> (y mod 100 \<noteq> 0 \<or> y mod 400 = 0))"

definition days_in_month :: "nat \<Rightarrow> nat \<Rightarrow> nat" where
  "days_in_month y m =
     (if m = 2 then (if is_leap y then 29 else 28)
      else if m = 4 \<or> m = 6 \<or> m = 9 \<or> m = 11 then 30 else 31)"

text \<open>The values a \<^verbatim>\<open>datetime.date\<close> can hold (\<^verbatim>\<open>MINYEAR = 1\<close>, \<^verbatim>\<open>MAXYEAR = 9999\<close>).\<close>

fun valid_date :: "date \<Rightarrow> bool" where
  "valid_date (y, m, d) =
     (1 \<le> y \<and> y \<le> 9999 \<and> 1 \<le> m \<and> m \<le> 12 \<and> 1 \<le> d \<and> d \<le> days_in_month y m)"

subsection \<open>Item\<close>

text \<open>
  \<^verbatim>\<open>quantity\<close> is a Python \<^verbatim>\<open>int\<close> (unbounded). \<^verbatim>\<open>price\<close> is a Python float, which is
  only stored and passed on by the operations below; it is represented by a real.
  \<^verbatim>\<open>expiry_queue\<close> is a deque of \<^verbatim>\<open>(expiry_date, quantity)\<close> tuples, front first.
\<close>

record item =
  name :: string
  category :: string
  price :: real
  quantity :: int
  expiry_queue :: "(date \<times> int) list"
  date_added :: date

text \<open>\<^verbatim>\<open>Item.__init__\<close>; the date read from the clock is the argument \<open>today\<close>.\<close>

definition Item_init :: "date \<Rightarrow> string \<Rightarrow> string \<Rightarrow> real \<Rightarrow> item" where
  "Item_init today n c p =
     \<lparr>name = n, category = c, price = p, quantity = 0, expiry_queue = [], date_added = today\<rparr>"

text \<open>
  \<^verbatim>\<open>Item.add_stock\<close>. Python's \<^verbatim>\<open>sorted\<close> with a key is a stable sort, and so is
  \<^const>\<open>sort_key\<close>; a stable sort by a key has one result only.
\<close>

definition add_stock :: "int \<Rightarrow> date \<Rightarrow> item \<Rightarrow> item" where
  "add_stock qty expiry_date it =
     it\<lparr>quantity := quantity it + qty,
        expiry_queue := sort_key fst (expiry_queue it @ [(expiry_date, qty)])\<rparr>"

text \<open>
  The \<^verbatim>\<open>while\<close> loop of \<^verbatim>\<open>Item.remove_expired\<close>: the state is the queue, the
  item's quantity and the local \<^verbatim>\<open>removed\<close>.
\<close>

fun expire_loop ::
  "date \<Rightarrow> (date \<times> int) list \<Rightarrow> int \<Rightarrow> int \<Rightarrow> (date \<times> int) list \<times> int \<times> int" where
  "expire_loop today [] q removed = ([], q, removed)"
| "expire_loop today ((d, qty) # rest) q removed =
     (if d < today then expire_loop today rest (q - qty) (removed + qty)
      else ((d, qty) # rest, q, removed))"

text \<open>\<^verbatim>\<open>Item.remove_expired\<close>: the returned \<^verbatim>\<open>removed\<close> and the item afterwards.\<close>

definition Item_remove_expired :: "date \<Rightarrow> item \<Rightarrow> int \<times> item" where
  "Item_remove_expired today it =
     (case expire_loop today (expiry_queue it) (quantity it) 0 of
        (queue, q, removed) \<Rightarrow> (removed, it\<lparr>quantity := q, expiry_queue := queue\<rparr>))"

subsection \<open>Dates as text\<close>

text \<open>
  \<^verbatim>\<open>str(date)\<close> is \<^verbatim>\<open>date.isoformat()\<close>, the text \<^verbatim>\<open>"%04d-%02d-%02d"\<close> of year, month
  and day. The year of a \<^verbatim>\<open>datetime.date\<close> is at most 9999, so four digits hold it.
\<close>

definition digit_char :: "nat \<Rightarrow> char" where
  "digit_char n = ''0123456789'' ! (n mod 10)"

definition date_str :: "date \<Rightarrow> string" where
  "date_str dt =
     (case dt of (y, m, d) \<Rightarrow>
        [digit_char (y div 1000), digit_char (y div 100), digit_char (y div 10), digit_char y,
         CHR ''-'', digit_char (m div 10), digit_char m,
         CHR ''-'', digit_char (d div 10), digit_char d])"

text \<open>
  \<^verbatim>\<open>datetime.datetime.strptime(s, "%Y-%m-%d").date()\<close> is a call into the standard
  library. Its behaviour on ASCII text is written out here after the library's
  patterns: \<^verbatim>\<open>%Y\<close> is \<^verbatim>\<open>\d\d\d\d\<close>, \<^verbatim>\<open>%m\<close> is \<^verbatim>\<open>1[0-2]|0[1-9]|[1-9]\<close> and
  \<^verbatim>\<open>%d\<close> is \<^verbatim>\<open>3[0-1]|[1-2]\d|0[1-9]|[1-9]| [1-9]\<close>; text left over after the match
  and a triple that is no calendar date raise \<^verbatim>\<open>ValueError\<close>, which is \<open>None\<close> here.
  An alternative of \<^verbatim>\<open>%m\<close> that matches is never given up later: the next pattern
  character is the hyphen, which no shorter alternative could reach.
\<close>

definition is_digit :: "char \<Rightarrow> bool" where
  "is_digit c = (CHR ''0'' \<le> c \<and> c \<le> CHR ''9'')"

definition is_1_9 :: "char \<Rightarrow> bool" where
  "is_1_9 c = (CHR ''1'' \<le> c \<and> c \<le> CHR ''9'')"

definition digit_val :: "char \<Rightarrow> nat" where
  "digit_val c = of_char c - 48"

fun match_Y :: "string \<Rightarrow> (nat \<times> string) option" where
  "match_Y (a # b # c # d # rest) =
     (if is_digit a \<and> is_digit b \<and> is_digit c \<and> is_digit d
      then Some (1000 * digit_val a + 100 * digit_val b + 10 * digit_val c + digit_val d, rest)
      else None)"
| "match_Y _ = None"

fun match_m :: "string \<Rightarrow> (nat \<times> string) option" where
  "match_m (a # b # rest) =
     (if a = CHR ''1'' \<and> (b = CHR ''0'' \<or> b = CHR ''1'' \<or> b = CHR ''2'')
        then Some (10 + digit_val b, rest)
      else if a = CHR ''0'' \<and> is_1_9 b then Some (digit_val b, rest)
      else if is_1_9 a then Some (digit_val a, b # rest)
      else None)"
| "match_m [a] = (if is_1_9 a then Some (digit_val a, []) else None)"
| "match_m [] = None"

fun match_d :: "string \<Rightarrow> (nat \<times> string) option" where
  "match_d (a # b # rest) =
     (if a = CHR ''3'' \<and> (b = CHR ''0'' \<or> b = CHR ''1'') then Some (30 + digit_val b, rest)
      else if (a = CHR ''1'' \<or> a = CHR ''2'') \<and> is_digit b
        then Some (10 * digit_val a + digit_val b, rest)
      else if a = CHR ''0'' \<and> is_1_9 b then Some (digit_val b, rest)
      else if is_1_9 a then Some (digit_val a, b # rest)
      else if a = CHR '' '' \<and> is_1_9 b then Some (digit_val b, rest)
      else None)"
| "match_d [a] = (if is_1_9 a then Some (digit_val a, []) else None)"
| "match_d [] = None"

fun match_hyphen :: "string \<Rightarrow> string option" where
  "match_hyphen (c # rest) = (if c = CHR ''-'' then Some rest else None)"
| "match_hyphen [] = None"

definition strptime :: "string \<Rightarrow> date option" where
  "strptime s =
     (case match_Y s of None \<Rightarrow> None | Some (y, s1) \<Rightarrow>
      case match_hyphen s1 of None \<Rightarrow> None | Some s2 \<Rightarrow>
      case match_m s2 of None \<Rightarrow> None | Some (m, s3) \<Rightarrow>
      case match_hyphen s3 of None \<Rightarrow> None | Some s4 \<Rightarrow>
      case match_d s4 of None \<Rightarrow> None | Some (d, s5) \<Rightarrow>
      if s5 = [] \<and> valid_date (y, m, d) then Some (y, m, d) else None)"






subsection \<open>InventoryManager\<close>

text \<open>
  The entries of \<^verbatim>\<open>action_stack\<close> are the tuples \<^verbatim>\<open>('delete_item', name)\<close> and
  \<^verbatim>\<open>('update_quantity', name, -quantity)\<close>. The stack is a Python list used at its
  tail: \<^verbatim>\<open>append\<close> adds at the end, \<^verbatim>\<open>pop\<close> takes the last entry.
\<close>

datatype action = Delete_item string | Update_quantity string int

text \<open>
  \<^verbatim>\<open>items\<close> is a Python dict, which iterates in insertion order: an association list
  with \<^const>\<open>AList.update\<close> (replace in place, or append a new key at the end) and
  \<^const>\<open>AList.delete\<close>. \<^verbatim>\<open>categories\<close> is a set of strings.
\<close>

record manager =
  items :: "(string \<times> item) list"
  action_stack :: "action list"
  categories :: "string set"

definition InventoryManager_init :: manager where
  "InventoryManager_init = \<lparr>items = [], action_stack = [], categories = {}\<rparr>"

text \<open>\<^verbatim>\<open>InventoryManager.add_item\<close>; \<open>today\<close> is the clock read by \<^verbatim>\<open>Item.__init__\<close>.\<close>

definition add_item :: "date \<Rightarrow> string \<Rightarrow> string \<Rightarrow> real \<Rightarrow> manager \<Rightarrow> bool \<times> manager" where
  "add_item today n c p m =
     (if map_of (items m) n = None
      then (True, m\<lparr>items := AList.update n (Item_init today n c p) (items m),
                     categories := insert c (categories m),
                     action_stack := action_stack m @ [Delete_item n]\<rparr>)
      else (False, m))"

text \<open>
  \<^verbatim>\<open>InventoryManager.update_quantity\<close>. The quantity is an \<^verbatim>\<open>int\<close> already, so
  \<^verbatim>\<open>int(quantity)\<close> is the quantity itself; the only \<^verbatim>\<open>ValueError\<close> left is the one
  of \<^verbatim>\<open>strptime\<close>, raised before anything is changed.
\<close>

definition update_quantity :: "string \<Rightarrow> int \<Rightarrow> string \<Rightarrow> manager \<Rightarrow> bool \<times> manager" where
  "update_quantity n qty expiry_date m =
     (case map_of (items m) n of
        None \<Rightarrow> (False, m)
      | Some it \<Rightarrow>
          (case strptime expiry_date of
             None \<Rightarrow> (False, m)
           | Some d \<Rightarrow>
               (True, m\<lparr>items := AList.update n (add_stock qty d it) (items m),
                        action_stack := action_stack m @ [Update_quantity n (- qty)]\<rparr>)))"

text \<open>
  The loop of \<^verbatim>\<open>InventoryManager.remove_expired\<close> over \<^verbatim>\<open>self.items.values()\<close>:
  \<open>seen\<close> holds the entries already visited, \<open>results\<close> the list built so far. A
  result is the text \<^verbatim>\<open>f"{removed} units removed from '{item.name}'"\<close>; it is kept as
  the pair of the two values the text is made of. \<^verbatim>\<open>if removed:\<close> tests \<open>removed \<noteq> 0\<close>.
  Each item reads the clock itself; the whole loop is taken to run within one day.
\<close>

fun remove_expired_loop ::
  "date \<Rightarrow> (string \<times> item) list \<Rightarrow> (string \<times> item) list \<Rightarrow> (int \<times> string) list
     \<Rightarrow> (string \<times> item) list \<times> (int \<times> string) list" where
  "remove_expired_loop today [] seen results = (seen, results)"
| "remove_expired_loop today ((k, it) # rest) seen results =
     (case Item_remove_expired today it of
        (removed, it') \<Rightarrow>
          remove_expired_loop today rest (seen @ [(k, it')])
            (if removed \<noteq> 0 then results @ [(removed, name it')] else results))"

definition remove_expired :: "date \<Rightarrow> manager \<Rightarrow> (int \<times> string) list \<times> manager" where
  "remove_expired today m =
     (case remove_expired_loop today (items m) [] [] of
        (its, results) \<Rightarrow> (results, m\<lparr>items := its\<rparr>))"

text \<open>The exceptions that leave the methods below.\<close>

datatype py_error = KeyError | OverflowError

text \<open>
  \<^verbatim>\<open>InventoryManager.undo_last_action\<close>. \<^verbatim>\<open>self.items[action[1]]\<close> raises
  \<^verbatim>\<open>KeyError\<close> for a name that is not in the dict; the entry has been popped by then.
\<close>

definition undo_last_action :: "manager \<Rightarrow> (py_error + string) \<times> manager" where
  "undo_last_action m =
     (if action_stack m = [] then (Inr ''No actions to undo.'', m)
      else
        let action = last (action_stack m);
            m1 = m\<lparr>action_stack := butlast (action_stack m)\<rparr>
        in case action of
             Delete_item n \<Rightarrow>
               (case map_of (items m1) n of
                  None \<Rightarrow> (Inl KeyError, m1)
                | Some it \<Rightarrow>
                    (Inr (''Undid: Deleted item '' @ [CHR 0x27] @ n @ [CHR 0x27]),
                     m1\<lparr>categories := categories m1 - {category it},
                        items := AList.delete n (items m1)\<rparr>))
           | Update_quantity n delta \<Rightarrow>
               (case map_of (items m1) n of
                  None \<Rightarrow> (Inl KeyError, m1)
                | Some it \<Rightarrow>
                    (Inr (''Undid: Quantity adjustment for '' @ [CHR 0x27] @ n @ [CHR 0x27]),
                     m1\<lparr>items := AList.update n (it\<lparr>quantity := quantity it + delta\<rparr>)
                                   (items m1)\<rparr>)))"

text \<open>
  \<^verbatim>\<open>InventoryManager.generate_report\<close>. \<^verbatim>\<open>sorted(self.items.items())\<close> orders the
  entries by name (the names of a dict are distinct, so no two items are compared).
  \<^verbatim>\<open>if category_filter and ...\<close> tests the filter for truth first: \<^verbatim>\<open>None\<close> and the
  empty string are false.

  \<^verbatim>\<open>item.quantity * item.price\<close> multiplies an \<^verbatim>\<open>int\<close> by a float. Python turns the
  \<^verbatim>\<open>int\<close> into a float first and raises \<^verbatim>\<open>OverflowError\<close> when it is too large for one,
  that is when its absolute value, rounded to the nearest double, is not finite: from
  \<open>2 ^ 1024 - 2 ^ 970\<close> on. The exception leaves \<^verbatim>\<open>generate_report\<close> and the rows built
  so far are lost. The product of the two floats and the currency texts of the price
  and of the product are float arithmetic and formatting, which are not computed here:
  a row keeps the quantity and the price that these texts are made of.
\<close>

definition float_of_int_ok :: "int \<Rightarrow> bool" where
  "float_of_int_ok q = (abs q < 2 ^ 1024 - 2 ^ 970)"

record report_row =
  Name :: string
  Category :: string
  Quantity :: int
  Price :: real
  Expiry_Dates :: string

fun join :: "string \<Rightarrow> string list \<Rightarrow> string" where
  "join sep [] = []"
| "join sep [x] = x"
| "join sep (x # y # ys) = x @ sep @ join sep (y # ys)"

definition truthy :: "string option \<Rightarrow> bool" where
  "truthy f = (case f of None \<Rightarrow> False | Some s \<Rightarrow> s \<noteq> [])"

definition row_fields :: "string \<Rightarrow> item \<Rightarrow> report_row" where
  "row_fields n it =
     \<lparr>Name = n, Category = category it, Quantity = quantity it, Price = price it,
      Expiry_Dates = join '', '' (map (\<lambda>exp. date_str (fst exp)) (expiry_queue it))\<rparr>"

definition report_row_of :: "string \<Rightarrow> item \<Rightarrow> py_error + report_row" where
  "report_row_of n it =
     (if float_of_int_ok (quantity it) then Inr (row_fields n it) else Inl OverflowError)"

text \<open>The \<^verbatim>\<open>for\<close> loop of \<^verbatim>\<open>generate_report\<close>; \<open>report\<close> is the list built so far.\<close>

fun report_loop ::
  "string option \<Rightarrow> (string \<times> item) list \<Rightarrow> report_row list \<Rightarrow> py_error + report_row list" where
  "report_loop category_filter [] report = Inr report"
| "report_loop category_filter ((n, it) # rest) report =
     (if truthy category_filter \<and> Some (category it) \<noteq> category_filter
      then report_loop category_filter rest report
      else case report_row_of n it of
             Inl e \<Rightarrow> Inl e
           | Inr row \<Rightarrow> report_loop category_filter rest (report @ [row]))"

definition generate_report :: "string option \<Rightarrow> manager \<Rightarrow> py_error + report_row list" where
  "generate_report category_filter m = report_loop category_filter (sort_key fst (items m)) []"

subsection \<open>Export and import\<close>







subsection \<open>Sequences of operations\<close>

text \<open>
  The mutating operations of the manager as commands; \<open>AddItem\<close> and \<open>EvictAllExpired\<close>
  carry the date the clock shows when they run.
\<close>

datatype op =
    AddItem date string string real
  | AddStock string int string
  | EvictAllExpired date
  | UndoLast

fun exec :: "op \<Rightarrow> manager \<Rightarrow> manager" where
  "exec (AddItem today n c p) m = snd (add_item today n c p m)"
| "exec (AddStock n qty expiry_date) m = snd (update_quantity n qty expiry_date m)"
| "exec (EvictAllExpired today) m = snd (remove_expired today m)"
| "exec UndoLast m = snd (undo_last_action m)"

fun run :: "manager \<Rightarrow> op list \<Rightarrow> manager" where
  "run m [] = m"
| "run m (c # cs) = run (exec c m) cs"

subsection \<open>Notions the properties are stated with\<close>

text \<open>A sequence of \<^verbatim>\<open>add_stock\<close> calls on one item, first call first.\<close>

definition add_stocks :: "item \<Rightarrow> (int \<times> date) list \<Rightarrow> item" where
  "add_stocks it calls = foldl (\<lambda>it' (qty, d). add_stock qty d it') it calls"

text \<open>The sum of the quantities of the batches in an item's queue.\<close>

definition ledger_total :: "item \<Rightarrow> int" where
  "ledger_total it = sum_list (map snd (expiry_queue it))"

definition item_consistent :: "item \<Rightarrow> bool" where
  "item_consistent it = (quantity it = ledger_total it)"

definition quantity_consistent :: "manager \<Rightarrow> bool" where
  "quantity_consistent m = list_all (\<lambda>(n, it). quantity it = ledger_total it) (items m)"

text \<open>The categories that some item of the registry has.\<close>

definition used_categories :: "manager \<Rightarrow> string set" where
  "used_categories m = set (map (\<lambda>(n, it). category it) (items m))"

text \<open>
  The names of the dict are distinct, and the category set holds only (or exactly)
  categories that some item has.
\<close>

definition categories_within :: "manager \<Rightarrow> bool" where
  "categories_within m = (distinct (map fst (items m)) \<and> categories m \<subseteq> used_categories m)"

definition categories_exact :: "manager \<Rightarrow> bool" where
  "categories_exact m = (distinct (map fst (items m)) \<and> categories m = used_categories m)"

text \<open>Every queue of the registry is in expiry order.\<close>

definition queues_sorted :: "manager \<Rightarrow> bool" where
  "queues_sorted m = list_all (\<lambda>(n, it). sorted (map fst (expiry_queue it))) (items m)"

text \<open>
  Every entry of the stack, read from the top, names an item of the registry, and
  below the \<^verbatim>\<open>'delete_item'\<close> entry of a name no entry has that name: \<open>K\<close> is the set
  of names the registry has when the entry is on top.
\<close>

fun stack_ok :: "string set \<Rightarrow> action list \<Rightarrow> bool" where
  "stack_ok K [] = True"
| "stack_ok K (Update_quantity n delta # below) = (n \<in> K \<and> stack_ok K below)"
| "stack_ok K (Delete_item n # below) = (n \<in> K \<and> stack_ok (K - {n}) below)"

definition stack_live :: "manager \<Rightarrow> bool" where
  "stack_live m = stack_ok (fst ` set (items m)) (rev (action_stack m))"

text \<open>A sequence of commands every step of which satisfies \<open>P\<close> in the state it runs in.\<close>

fun steps_ok :: "(op \<Rightarrow> manager \<Rightarrow> bool) \<Rightarrow> manager \<Rightarrow> op list \<Rightarrow> bool" where
  "steps_ok P m [] = True"
| "steps_ok P m (c # cs) = (P c m \<and> steps_ok P (exec c m) cs)"

text \<open>The command is an undo that pops an \<^verbatim>\<open>'update_quantity'\<close> entry.\<close>

definition pops_stock_record :: "op \<Rightarrow> manager \<Rightarrow> bool" where
  "pops_stock_record c m =
     (c = UndoLast \<and> action_stack m \<noteq> [] \<and>
      (case last (action_stack m) of Update_quantity n delta \<Rightarrow> True | Delete_item n \<Rightarrow> False))"

text \<open>
  The command is an undo that pops a \<^verbatim>\<open>'delete_item'\<close> entry of an item whose category
  another item of the registry has too.
\<close>

definition drops_shared_category :: "op \<Rightarrow> manager \<Rightarrow> bool" where
  "drops_shared_category c m =
     (c = UndoLast \<and> action_stack m \<noteq> [] \<and>
      (case last (action_stack m) of
         Update_quantity n delta \<Rightarrow> False
       | Delete_item n \<Rightarrow>
           (case map_of (items m) n of
              None \<Rightarrow> False
            | Some it \<Rightarrow>
                list_ex (\<lambda>(n', it'). n' \<noteq> n \<and> category it' = category it) (items m))))"



section \<open>Properties of the batch ledger\<close>

lemma expire_loop_eq:
  "expire_loop today bs q r =
     (dropWhile (\<lambda>b. fst b < today) bs,
      q - sum_list (map snd (takeWhile (\<lambda>b. fst b < today) bs)),
      r + sum_list (map snd (takeWhile (\<lambda>b. fst b < today) bs)))"
  by (induction today bs q r rule: expire_loop.induct) auto

lemma sorted_takeWhile_filter:
  fixes today :: "'a::linorder"
  shows "sorted (map fst bs) \<Longrightarrow>
    takeWhile (\<lambda>b. fst b < today) bs = filter (\<lambda>b. fst b < today) bs"
proof (induction bs)
  case Nil
  then show ?case by simp
next
  case (Cons b bs)
  show ?case
  proof (cases "fst b < today")
    case True
    with Cons show ?thesis by simp
  next
    case False
    with Cons.prems have "\<forall>c \<in> set bs. \<not> fst c < today"
      by fastforce
    with False show ?thesis by (simp add: filter_empty_conv)
  qed
qed

lemma sorted_dropWhile_filter:
  fixes today :: "'a::linorder"
  shows "sorted (map fst bs) \<Longrightarrow>
    dropWhile (\<lambda>b. fst b < today) bs = filter (\<lambda>b. \<not> fst b < today) bs"
proof (induction bs)
  case Nil
  then show ?case by simp
next
  case (Cons b bs)
  show ?case
  proof (cases "fst b < today")
    case True
    with Cons show ?thesis by simp
  next
    case False
    with Cons.prems have "\<forall>c \<in> set bs. \<not> fst c < today"
      by fastforce
    with False show ?thesis by simp
  qed
qed

text \<open>
  C3. On an item whose queue is in expiry order (as \<^verbatim>\<open>add_stock\<close> leaves it, and as it
  is in every state of the registry, see \<open>queues_sorted_run\<close> in the last section),
  \<^verbatim>\<open>Item.remove_expired\<close> keeps exactly the batches that do not expire strictly before
  \<open>today\<close> (one expiring on \<open>today\<close> stays), in their order, returns the sum of the
  quantities of the batches it removed, and lowers the item's quantity by that sum; the
  other fields stay.
\<close>

theorem remove_expired_exact:
  assumes "sorted (map fst (expiry_queue it))"
  shows "Item_remove_expired today it =
     (sum_list (map snd (filter (\<lambda>b. fst b < today) (expiry_queue it))),
      it\<lparr>quantity := quantity it
             - sum_list (map snd (filter (\<lambda>b. fst b < today) (expiry_queue it))),
         expiry_queue := filter (\<lambda>b. \<not> fst b < today) (expiry_queue it)\<rparr>)"
  using assms
  by (simp add: Item_remove_expired_def expire_loop_eq
      sorted_takeWhile_filter sorted_dropWhile_filter)

theorem remove_expired_exact_witness:
  "sorted (map fst (expiry_queue
     (add_stocks (Item_init (2024, 1, 1) ''Milk'' ''Dairy'' 50)
        [(3, (2024, 6, 1)), (5, (2024, 5, 31))]))) \<and>
   Item_remove_expired (2024, 6, 1)
     (add_stocks (Item_init (2024, 1, 1) ''Milk'' ''Dairy'' 50)
        [(3, (2024, 6, 1)), (5, (2024, 5, 31))]) =
     (5, \<lparr>name = ''Milk'', category = ''Dairy'', price = 50, quantity = 3,
          expiry_queue = [((2024, 6, 1), 3)], date_added = (2024, 1, 1)\<rparr>)"
proof -
  let ?it = "add_stocks (Item_init (2024, 1, 1) ''Milk'' ''Dairy'' 50)
        [(3, (2024, 6, 1)), (5, (2024, 5, 31))]"
  have h: "sorted (map fst (expiry_queue ?it))"
    by (simp add: add_stocks_def add_stock_def Item_init_def)
  show ?thesis
    using h remove_expired_exact [OF h, of "(2024, 6, 1)"]
    by (simp add: add_stocks_def add_stock_def Item_init_def)
qed

lemma sort_key_sort_key_append:
  "sort_key f (sort_key f xs @ ys) = sort_key f (xs @ ys)"
proof (rule properties_for_sort_key)
  show "mset (sort_key f (xs @ ys)) = mset (sort_key f xs @ ys)" by simp
  show "sorted (map f (sort_key f (xs @ ys)))" by simp
  fix k
  have "filter (\<lambda>x. f x = f k) (sort_key f (xs @ ys)) = filter (\<lambda>x. f x = f k) (xs @ ys)"
    by (rule sort_key_stable)
  moreover have "filter (\<lambda>x. f x = f k) (sort_key f xs) = filter (\<lambda>x. f x = f k) xs"
    by (rule sort_key_stable)
  ultimately show "filter (\<lambda>x. f k = f x) (sort_key f (xs @ ys)) = filter (\<lambda>x. f k = f x) (sort_key f xs @ ys)"
    by (simp add: eq_commute[of "f k"])
qed

lemma expiry_queue_add_stock:
  "expiry_queue (add_stock qty d it) = sort_key fst (expiry_queue it @ [(d, qty)])"
  by (simp add: add_stock_def)

lemma expiry_queue_add_stocks:
  "expiry_queue (add_stocks it calls) =
     (if calls = [] then expiry_queue it
      else sort_key fst (expiry_queue it @ map (\<lambda>(qty, d). (d, qty)) calls))"
proof (induction calls arbitrary: it)
  case Nil
  then show ?case by (simp add: add_stocks_def)
next
  case (Cons c cs)
  obtain qty d where c: "c = (qty, d)" by (cases c)
  have step: "add_stocks it (c # cs) = add_stocks (add_stock qty d it) cs"
    by (simp add: add_stocks_def c)
  show ?case
  proof (cases "cs = []")
    case True
    then show ?thesis by (simp add: add_stocks_def c add_stock_def)
  next
    case False
    have "expiry_queue (add_stocks it (c # cs)) =
        sort_key fst (expiry_queue (add_stock qty d it) @ map (\<lambda>(qty, d). (d, qty)) cs)"
      using False by (simp only: step Cons.IH if_False)
    also have "\<dots> = sort_key fst ((expiry_queue it @ [(d, qty)]) @ map (\<lambda>(qty, d). (d, qty)) cs)"
      by (simp only: expiry_queue_add_stock sort_key_sort_key_append)
    finally show ?thesis by (simp add: c)
  qed
qed

text \<open>
  C4. After any sequence of \<^verbatim>\<open>add_stock\<close> calls on an item whose queue is in expiry
  order (a new item's queue is empty), the queue is in ascending expiry order, and the
  batches of one expiry date stand in the order in which they were added, after those
  the item had before.
\<close>

theorem add_stock_sorted_stable:
  assumes "sorted (map fst (expiry_queue it))"
  shows "sorted (map fst (expiry_queue (add_stocks it calls))) \<and>
     (\<forall>k. filter (\<lambda>b. fst b = k) (expiry_queue (add_stocks it calls)) =
          filter (\<lambda>b. fst b = k) (expiry_queue it @ map (\<lambda>(qty, d). (d, qty)) calls))"
  using assms by (simp add: expiry_queue_add_stocks sort_key_stable)

theorem add_stock_sorted_stable_witness:
  "sorted (map fst (expiry_queue (Item_init (2024, 1, 1) ''Milk'' ''Dairy'' 50))) \<and>
   expiry_queue (add_stocks (Item_init (2024, 1, 1) ''Milk'' ''Dairy'' 50)
      [(4, (2025, 3, 1)), (7, (2024, 12, 24)), (2, (2025, 3, 1))]) =
     [((2024, 12, 24), 7), ((2025, 3, 1), 4), ((2025, 3, 1), 2)]"
proof -
  let ?it = "Item_init (2024, 1, 1) ''Milk'' ''Dairy'' 50"
  let ?calls = "[(4, (2025, 3, 1)), (7, (2024, 12, 24)), (2::int, (2025::nat, 3::nat, 1::nat))]"
  have h: "sorted (map fst (expiry_queue ?it))" by (simp add: Item_init_def)
  have "sorted (map fst (expiry_queue (add_stocks ?it ?calls)))"
    using add_stock_sorted_stable [OF h, of ?calls] by blast
  moreover have "expiry_queue (add_stocks ?it ?calls) = [((2024, 12, 24), 7), ((2025, 3, 1), 4), ((2025, 3, 1), 2)]"
    by (simp add: add_stocks_def add_stock_def Item_init_def)
  ultimately show ?thesis using h by simp
qed

section \<open>Dates as text\<close>

subsection \<open>A date printed by \<^verbatim>\<open>str\<close> is read back by \<^verbatim>\<open>strptime\<close>\<close>
















subsection \<open>The texts that \<^verbatim>\<open>strptime\<close> takes\<close>


































section \<open>Properties of the registry operations\<close>

lemma update_fresh: "k \<notin> fst ` set al \<Longrightarrow> AList.update k v al = al @ [(k, v)]"
  by (induction al) auto

lemma map_of_None_iff: "(map_of al k = None) = (k \<notin> fst ` set al)"
  by (simp add: map_of_eq_None_iff)

text \<open>
  C9. \<^verbatim>\<open>add_item\<close> with a name the registry has returns \<^verbatim>\<open>False\<close> and the registry
  as it was: the item keeps its category and quantity, no category is added and
  nothing is pushed. With a new name it returns \<^verbatim>\<open>True\<close>, appends an item with
  quantity 0 and an empty queue, adds the category and pushes the
  \<^verbatim>\<open>'delete_item'\<close> entry of the name.
\<close>

theorem add_item_result:
  "(n \<in> fst ` set (items m) \<longrightarrow> add_item today n c p m = (False, m)) \<and>
   (n \<notin> fst ` set (items m) \<longrightarrow>
      add_item today n c p m =
        (True, m\<lparr>items := items m @
                    [(n, \<lparr>name = n, category = c, price = p, quantity = 0,
                          expiry_queue = [], date_added = today\<rparr>)],
                  categories := insert c (categories m),
                  action_stack := action_stack m @ [Delete_item n]\<rparr>))"
  by (simp add: add_item_def map_of_None_iff update_fresh Item_init_def)

theorem add_item_result_witness:
  "''Milk'' \<notin> fst ` set (items InventoryManager_init) \<and>
   ''Milk'' \<in> fst ` set (items (snd (add_item (2024, 1, 1) ''Milk'' ''Dairy'' 50 InventoryManager_init))) \<and>
   add_item (2024, 1, 1) ''Milk'' ''Dairy'' 50 InventoryManager_init =
     (True, \<lparr>items = [(''Milk'', \<lparr>name = ''Milk'', category = ''Dairy'', price = 50,
                quantity = 0, expiry_queue = [], date_added = (2024, 1, 1)\<rparr>)],
             action_stack = [Delete_item ''Milk''], categories = {''Dairy''}\<rparr>) \<and>
   add_item (2024, 1, 2) ''Milk'' ''Bread'' 10
       (snd (add_item (2024, 1, 1) ''Milk'' ''Dairy'' 50 InventoryManager_init)) =
     (False, \<lparr>items = [(''Milk'', \<lparr>name = ''Milk'', category = ''Dairy'', price = 50,
                quantity = 0, expiry_queue = [], date_added = (2024, 1, 1)\<rparr>)],
             action_stack = [Delete_item ''Milk''], categories = {''Dairy''}\<rparr>)"
proof -
  let ?m0 = "InventoryManager_init"
  let ?m1 = "snd (add_item (2024, 1, 1) ''Milk'' ''Dairy'' 50 ?m0)"
  have fresh: "''Milk'' \<notin> fst ` set (items ?m0)"
    by (simp add: InventoryManager_init_def)
  have first: "add_item (2024, 1, 1) ''Milk'' ''Dairy'' 50 ?m0 =
     (True, \<lparr>items = [(''Milk'', \<lparr>name = ''Milk'', category = ''Dairy'', price = 50,
                quantity = 0, expiry_queue = [], date_added = (2024, 1, 1)\<rparr>)],
             action_stack = [Delete_item ''Milk''], categories = {''Dairy''}\<rparr>)"
    using fresh add_item_result [of "''Milk''" ?m0 "(2024, 1, 1)" "''Dairy''" 50]
    by (simp add: InventoryManager_init_def)
  have there: "''Milk'' \<in> fst ` set (items ?m1)"
    unfolding first by simp
  have "add_item (2024, 1, 2) ''Milk'' ''Bread'' 10 ?m1 = (False, ?m1)"
    using there add_item_result [of "''Milk''" ?m1 "(2024, 1, 2)" "''Bread''" 10] by blast
  with fresh there first show ?thesis by simp
qed




text \<open>
  C2. An undo that pops \<^verbatim>\<open>('update_quantity', name, delta)\<close> for an item of the
  registry adds \<open>delta\<close> to that item's quantity and changes nothing else: the item's
  queue and other fields, the other items, the order of the items and the category
  set are as before. (The item is in the registry in every state reached from the
  empty one, see \<open>undo_last_action_returns\<close> in the last section.)
\<close>

theorem undo_stock_frame:
  assumes "action_stack m = st @ [Update_quantity n delta]"
    and "map_of (items m) n = Some it"
  shows "undo_last_action m =
      (Inr (''Undid: Quantity adjustment for '' @ [CHR 0x27] @ n @ [CHR 0x27]),
       m\<lparr>action_stack := st,
          items := AList.update n (it\<lparr>quantity := quantity it + delta\<rparr>) (items m)\<rparr>) \<and>
     map_of (items (snd (undo_last_action m))) n = Some (it\<lparr>quantity := quantity it + delta\<rparr>) \<and>
     (\<forall>n'. n' \<noteq> n \<longrightarrow> map_of (items (snd (undo_last_action m))) n' = map_of (items m) n') \<and>
     map fst (items (snd (undo_last_action m))) = map fst (items m) \<and>
     categories (snd (undo_last_action m)) = categories m"
proof -
  have eq: "undo_last_action m =
      (Inr (''Undid: Quantity adjustment for '' @ [CHR 0x27] @ n @ [CHR 0x27]),
       m\<lparr>action_stack := st,
          items := AList.update n (it\<lparr>quantity := quantity it + delta\<rparr>) (items m)\<rparr>)"
    using assms by (simp add: undo_last_action_def Let_def)
  have "n \<in> fst ` set (items m)"
    using assms(2) by (metis map_of_None_iff option.distinct(1))
  then have keys: "map fst (AList.update n (it\<lparr>quantity := quantity it + delta\<rparr>) (items m)) = map fst (items m)"
    by (simp add: AList.update_keys)
  show ?thesis
    unfolding eq using keys by (simp add: AList.update_conv')
qed

theorem undo_stock_frame_witness:
  "action_stack (run InventoryManager_init
       [AddItem (2024, 1, 1) ''Milk'' ''Dairy'' 50, AddStock ''Milk'' 10 ''2099-01-01'']) =
     [Delete_item ''Milk''] @ [Update_quantity ''Milk'' (- 10)] \<and>
   map_of (items (run InventoryManager_init
       [AddItem (2024, 1, 1) ''Milk'' ''Dairy'' 50, AddStock ''Milk'' 10 ''2099-01-01''])) ''Milk'' =
     Some \<lparr>name = ''Milk'', category = ''Dairy'', price = 50, quantity = 10,
            expiry_queue = [((2099, 1, 1), 10)], date_added = (2024, 1, 1)\<rparr> \<and>
   snd (undo_last_action (run InventoryManager_init
       [AddItem (2024, 1, 1) ''Milk'' ''Dairy'' 50, AddStock ''Milk'' 10 ''2099-01-01''])) =
     \<lparr>items = [(''Milk'', \<lparr>name = ''Milk'', category = ''Dairy'', price = 50, quantity = 0,
                 expiry_queue = [((2099, 1, 1), 10)], date_added = (2024, 1, 1)\<rparr>)],
      action_stack = [Delete_item ''Milk''], categories = {''Dairy''}\<rparr>"
proof -
  let ?m = "run InventoryManager_init
       [AddItem (2024, 1, 1) ''Milk'' ''Dairy'' 50, AddStock ''Milk'' 10 ''2099-01-01'']"
  let ?it = "\<lparr>name = ''Milk'', category = ''Dairy'', price = 50, quantity = 10,
            expiry_queue = [((2099, 1, 1), 10)], date_added = (2024, 1, 1)\<rparr>"
  have good: "strptime ''2099-01-01'' = Some (2099, 1, 1)"
    by (simp add: strptime_def is_digit_def is_1_9_def digit_val_def days_in_month_def)
  have m: "?m = \<lparr>items = [(''Milk'', ?it)],
      action_stack = [Delete_item ''Milk'', Update_quantity ''Milk'' (- 10)],
      categories = {''Dairy''}\<rparr>"
    by (simp add: InventoryManager_init_def add_item_def update_quantity_def good
        add_stock_def Item_init_def)
  have h1: "action_stack ?m = [Delete_item ''Milk''] @ [Update_quantity ''Milk'' (- 10)]"
    unfolding m by simp
  have h2: "map_of (items ?m) ''Milk'' = Some ?it"
    unfolding m by simp
  have "undo_last_action ?m =
      (Inr (''Undid: Quantity adjustment for '' @ [CHR 0x27] @ ''Milk'' @ [CHR 0x27]),
       ?m\<lparr>action_stack := [Delete_item ''Milk''],
          items := AList.update ''Milk'' (?it\<lparr>quantity := quantity ?it + (- 10)\<rparr>) (items ?m)\<rparr>)"
    using undo_stock_frame [OF h1 h2] by blast
  then have "snd (undo_last_action ?m) =
     \<lparr>items = [(''Milk'', \<lparr>name = ''Milk'', category = ''Dairy'', price = 50, quantity = 0,
                 expiry_queue = [((2099, 1, 1), 10)], date_added = (2024, 1, 1)\<rparr>)],
      action_stack = [Delete_item ''Milk''], categories = {''Dairy''}\<rparr>"
    unfolding m by simp
  with h1 h2 show ?thesis by blast
qed

lemma report_loop_eq:
  "report_loop f its report =
     (if list_all (\<lambda>(n, it). float_of_int_ok (quantity it))
           (filter (\<lambda>(n, it). \<not> (truthy f \<and> Some (category it) \<noteq> f)) its)
      then Inr (report @ map (\<lambda>(n, it). row_fields n it)
                  (filter (\<lambda>(n, it). \<not> (truthy f \<and> Some (category it) \<noteq> f)) its))
      else Inl OverflowError)"
  by (induction f its report rule: report_loop.induct) (simp_all add: report_row_of_def)

lemma report_loop_no_filter:
  "\<not> truthy f \<Longrightarrow>
   report_loop f its [] =
     (if list_all (\<lambda>(n, it). float_of_int_ok (quantity it)) its
      then Inr (map (\<lambda>(n, it). row_fields n it) its) else Inl OverflowError)"
  by (simp add: report_loop_eq)

lemma list_all_sort_key: "list_all P (sort_key f xs) = list_all P xs"
  by (simp add: list_all_iff)

text \<open>
  C10, as the code has it. \<^verbatim>\<open>generate_report\<close> with the empty string as filter does
  what it does with no filter. When the quantity of every item is within the float
  range, both return one row for every item, whatever its category, in name order;
  when the quantity of some item is beyond it, both raise \<^verbatim>\<open>OverflowError\<close>.
\<close>

theorem generate_report_empty_filter:
  "generate_report (Some '''') m = generate_report None m \<and>
   (list_all (\<lambda>(n, it). float_of_int_ok (quantity it)) (items m) \<longrightarrow>
      generate_report None m =
        Inr (map (\<lambda>(n, it). row_fields n it) (sort_key fst (items m)))) \<and>
   (\<not> list_all (\<lambda>(n, it). float_of_int_ok (quantity it)) (items m) \<longrightarrow>
      generate_report None m = Inl OverflowError)"
  by (simp add: generate_report_def truthy_def report_loop_no_filter list_all_sort_key)

theorem generate_report_empty_filter_witness:
  "list_all (\<lambda>(n, it). float_of_int_ok (quantity it))
     (items (run InventoryManager_init
        [AddItem (2024, 1, 1) ''Milk'' ''Dairy'' 50, AddItem (2024, 1, 1) ''Apple'' ''Fruit'' 2,
         AddStock ''Milk'' 10 ''2099-01-01''])) \<and>
   generate_report (Some '''')
     (run InventoryManager_init
        [AddItem (2024, 1, 1) ''Milk'' ''Dairy'' 50, AddItem (2024, 1, 1) ''Apple'' ''Fruit'' 2,
         AddStock ''Milk'' 10 ''2099-01-01'']) =
   Inr [\<lparr>Name = ''Apple'', Category = ''Fruit'', Quantity = 0, Price = 2,
         Expiry_Dates = ''''\<rparr>,
        \<lparr>Name = ''Milk'', Category = ''Dairy'', Quantity = 10, Price = 50,
         Expiry_Dates = ''2099-01-01''\<rparr>] \<and>
   \<not> list_all (\<lambda>(n, it). float_of_int_ok (quantity it))
     (items (run InventoryManager_init
        [AddItem (2024, 1, 1) ''Milk'' ''Dairy'' 50,
         AddStock ''Milk'' (2 ^ 1024) ''2099-01-01''])) \<and>
   generate_report None
     (run InventoryManager_init
        [AddItem (2024, 1, 1) ''Milk'' ''Dairy'' 50,
         AddStock ''Milk'' (2 ^ 1024) ''2099-01-01'']) = Inl OverflowError"
proof -
  let ?m = "run InventoryManager_init
        [AddItem (2024, 1, 1) ''Milk'' ''Dairy'' 50, AddItem (2024, 1, 1) ''Apple'' ''Fruit'' 2,
         AddStock ''Milk'' 10 ''2099-01-01'']"
  let ?big = "run InventoryManager_init
        [AddItem (2024, 1, 1) ''Milk'' ''Dairy'' 50,
         AddStock ''Milk'' (2 ^ 1024) ''2099-01-01'']"
  have good: "strptime ''2099-01-01'' = Some (2099, 1, 1)"
    by (simp add: strptime_def is_digit_def is_1_9_def digit_val_def days_in_month_def)
  have m: "items ?m =
     [(''Milk'', \<lparr>name = ''Milk'', category = ''Dairy'', price = 50, quantity = 10,
         expiry_queue = [((2099, 1, 1), 10)], date_added = (2024, 1, 1)\<rparr>),
      (''Apple'', \<lparr>name = ''Apple'', category = ''Fruit'', price = 2, quantity = 0,
         expiry_queue = [], date_added = (2024, 1, 1)\<rparr>)]"
    by (simp add: InventoryManager_init_def add_item_def update_quantity_def good
        add_stock_def Item_init_def)
  have h: "list_all (\<lambda>(n, it). float_of_int_ok (quantity it)) (items ?m)"
    unfolding m by (simp add: float_of_int_ok_def)
  have "generate_report (Some '''') ?m =
      Inr (map (\<lambda>(n, it). row_fields n it) (sort_key fst (items ?m)))"
    using h generate_report_empty_filter [of ?m] by simp
  also have "\<dots> =
   Inr [\<lparr>Name = ''Apple'', Category = ''Fruit'', Quantity = 0, Price = 2,
         Expiry_Dates = ''''\<rparr>,
        \<lparr>Name = ''Milk'', Category = ''Dairy'', Quantity = 10, Price = 50,
         Expiry_Dates = ''2099-01-01''\<rparr>]"
    unfolding m by (simp add: row_fields_def date_str_def digit_char_def)
  finally have r: "generate_report (Some '''') ?m =
   Inr [\<lparr>Name = ''Apple'', Category = ''Fruit'', Quantity = 0, Price = 2,
         Expiry_Dates = ''''\<rparr>,
        \<lparr>Name = ''Milk'', Category = ''Dairy'', Quantity = 10, Price = 50,
         Expiry_Dates = ''2099-01-01''\<rparr>]" .
  have b: "\<not> list_all (\<lambda>(n, it). float_of_int_ok (quantity it)) (items ?big)"
    by (simp add: float_of_int_ok_def InventoryManager_init_def add_item_def
        update_quantity_def good add_stock_def Item_init_def)
  have e: "generate_report None ?big = Inl OverflowError"
    using b generate_report_empty_filter [of ?big] by blast
  from h r b e show ?thesis by blast
qed

text \<open>
  A quantity of \<open>10 ^ 400\<close> is beyond the float range: the report of a registry with
  such an item is an \<^verbatim>\<open>OverflowError\<close>, not a row for every item.
\<close>

theorem generate_report_counterexample:
  "generate_report (Some '''')
     (run InventoryManager_init
        [AddItem (2024, 1, 1) ''Milk'' ''Dairy'' 50,
         AddStock ''Milk'' (10 ^ 400) ''2099-01-01'']) = Inl OverflowError"
proof -
  have good: "strptime ''2099-01-01'' = Some (2099, 1, 1)"
    by (simp add: strptime_def is_digit_def is_1_9_def digit_val_def days_in_month_def)
  have big: "\<not> float_of_int_ok (10 ^ 400)"
    by (simp add: float_of_int_ok_def)
  show ?thesis
    using big
    by (simp add: generate_report_def truthy_def report_row_of_def InventoryManager_init_def
        add_item_def update_quantity_def good add_stock_def Item_init_def)
qed

section \<open>Eviction over the whole registry\<close>

lemma strptime_2099: "strptime ''2099-01-01'' = Some (2099, 1, 1)"
  by (simp add: strptime_def is_digit_def is_1_9_def digit_val_def days_in_month_def)

lemma strptime_2000: "strptime ''2000-01-01'' = Some (2000, 1, 1)"
  by (simp add: strptime_def is_digit_def is_1_9_def digit_val_def days_in_month_def
      is_leap_def)

lemma Item_remove_expired_eq:
  "Item_remove_expired today it =
     (sum_list (map snd (takeWhile (\<lambda>b. fst b < today) (expiry_queue it))),
      it\<lparr>quantity := quantity it
             - sum_list (map snd (takeWhile (\<lambda>b. fst b < today) (expiry_queue it))),
         expiry_queue := dropWhile (\<lambda>b. fst b < today) (expiry_queue it)\<rparr>)"
  by (simp add: Item_remove_expired_def expire_loop_eq)

lemma Item_remove_expired_frame:
  "name (snd (Item_remove_expired today it)) = name it \<and>
   category (snd (Item_remove_expired today it)) = category it"
  by (simp add: Item_remove_expired_eq)

lemma remove_expired_loop_eq:
  "remove_expired_loop today its seen results =
     (seen @ map (\<lambda>(k, it). (k, snd (Item_remove_expired today it))) its,
      results @ map (\<lambda>(k, it). (fst (Item_remove_expired today it), name it))
                  (filter (\<lambda>(k, it). fst (Item_remove_expired today it) \<noteq> 0) its))"
proof (induction today its seen results rule: remove_expired_loop.induct)
  case (1 today seen results)
  then show ?case by simp
next
  case (2 today k it rest seen results)
  obtain removed it' where r: "Item_remove_expired today it = (removed, it')"
    by (cases "Item_remove_expired today it")
  have n: "name it' = name it"
    using Item_remove_expired_frame [of today it] by (simp add: r)
  show ?case
    using "2.IH" [OF r [symmetric]] by (simp add: r n)
qed

lemma remove_expired_eq:
  "remove_expired today m =
     (map (\<lambda>(k, it). (fst (Item_remove_expired today it), name it))
        (filter (\<lambda>(k, it). fst (Item_remove_expired today it) \<noteq> 0) (items m)),
      m\<lparr>items := map (\<lambda>(k, it). (k, snd (Item_remove_expired today it))) (items m)\<rparr>)"
  by (simp add: remove_expired_def remove_expired_loop_eq)





section \<open>Invariants of the registry\<close>

lemma run_invariant:
  assumes "I m" and "steps_ok P m cs"
    and step: "\<And>c m. I m \<Longrightarrow> P c m \<Longrightarrow> I (exec c m)"
  shows "I (run m cs)"
  using assms(1,2)
proof (induction cs arbitrary: m)
  case Nil
  then show ?case by simp
next
  case (Cons c cs)
  from Cons.prems have "I (exec c m)" and "steps_ok P (exec c m) cs"
    by (simp_all add: step)
  then show ?case by (simp add: Cons.IH)
qed

lemma steps_ok_True [simp]: "steps_ok (\<lambda>c m. True) m cs"
  by (induction cs arbitrary: m) simp_all

lemma set_update_subset: "set (AList.update k v al) \<subseteq> insert (k, v) (set al)"
  by (induction al) auto

lemma set_delete_subset: "set (AList.delete k al) \<subseteq> set al"
  by (auto simp add: AList.delete_eq)

lemma quantity_consistent_iff:
  "quantity_consistent m = (\<forall>(n, it) \<in> set (items m). item_consistent it)"
  by (simp add: quantity_consistent_def list_all_iff item_consistent_def)

lemma sum_list_snd_sort_key:
  "sum_list (map snd (sort_key f xs)) = (sum_list (map snd xs) :: int)"
proof -
  have "mset (map snd (sort_key f xs)) = mset (map snd xs)"
    by simp
  then have "sum_mset (mset (map snd (sort_key f xs))) = sum_mset (mset (map snd xs))"
    by (rule arg_cong)
  then show ?thesis
    by (simp only: sum_mset_sum_list)
qed

lemma consistent_Item_init: "item_consistent (Item_init today n c p)"
  by (simp add: item_consistent_def ledger_total_def Item_init_def)

lemma consistent_add_stock: "item_consistent it \<Longrightarrow> item_consistent (add_stock qty d it)"
  by (simp add: item_consistent_def ledger_total_def add_stock_def sum_list_snd_sort_key)

lemma sum_list_takeWhile_dropWhile:
  "sum_list (map snd (takeWhile P xs)) + sum_list (map snd (dropWhile P xs)) =
     (sum_list (map snd xs) :: int)"
  by (induction xs) auto

lemma consistent_Item_remove_expired:
  "item_consistent it \<Longrightarrow> item_consistent (snd (Item_remove_expired today it))"
  using sum_list_takeWhile_dropWhile [of "\<lambda>b. fst b < today" "expiry_queue it"]
  by (simp add: item_consistent_def ledger_total_def Item_remove_expired_eq)

lemma all_items_update:
  assumes "\<forall>(n, it) \<in> set al. P it" and "P v"
  shows "\<forall>(n, it) \<in> set (AList.update k v al). P it"
proof -
  have "P (snd x)" if "x \<in> set (AList.update k v al)" for x
  proof -
    from that set_update_subset [of k v al] have "x = (k, v) \<or> x \<in> set al" by blast
    with assms show ?thesis by fastforce
  qed
  then show ?thesis by fastforce
qed

lemma all_items_delete:
  assumes "\<forall>(n, it) \<in> set al. P it"
  shows "\<forall>(n, it) \<in> set (AList.delete k al). P it"
  using assms set_delete_subset [of k al] by blast

lemma all_items_map:
  assumes "\<forall>(n, it) \<in> set al. P it" and "\<And>it. P it \<Longrightarrow> P (f it)"
  shows "\<forall>(n, it) \<in> set (map (\<lambda>(k, it). (k, f it)) al). P it"
  using assms by fastforce

lemma consistent_add_item:
  assumes "quantity_consistent m"
  shows "quantity_consistent (snd (add_item today n c p m))"
proof (cases "map_of (items m) n = None")
  case True
  have "\<forall>(k, it) \<in> set (AList.update n (Item_init today n c p) (items m)). item_consistent it"
  proof (rule all_items_update)
    show "\<forall>(k, it) \<in> set (items m). item_consistent it"
      using assms by (simp add: quantity_consistent_iff)
    show "item_consistent (Item_init today n c p)"
      by (rule consistent_Item_init)
  qed
  with True show ?thesis by (simp add: quantity_consistent_iff add_item_def)
next
  case False
  then have "add_item today n c p m = (False, m)"
    unfolding add_item_def by (rule if_not_P)
  with assms show ?thesis by simp
qed

lemma consistent_update_quantity:
  assumes "quantity_consistent m"
  shows "quantity_consistent (snd (update_quantity n qty s m))"
proof (cases "map_of (items m) n")
  case None
  with assms show ?thesis by (simp add: update_quantity_def)
next
  case (Some it)
  then have "(n, it) \<in> set (items m)" by (rule map_of_SomeD)
  with assms have c: "item_consistent it" by (auto simp add: quantity_consistent_iff)
  show ?thesis
  proof (cases "strptime s")
    case None
    with Some assms show ?thesis by (simp add: update_quantity_def)
  next
    case d: (Some d)
    have "\<forall>(n, it) \<in> set (AList.update n (add_stock qty d it) (items m)). item_consistent it"
      using assms c by (intro all_items_update) (simp_all add: quantity_consistent_iff consistent_add_stock)
    then show ?thesis
      by (simp add: quantity_consistent_iff update_quantity_def Some d)
  qed
qed

lemma consistent_remove_expired:
  assumes "quantity_consistent m"
  shows "quantity_consistent (snd (remove_expired today m))"
proof -
  have "\<forall>(n, it) \<in> set (map (\<lambda>(k, it). (k, snd (Item_remove_expired today it))) (items m)).
      item_consistent it"
    using assms by (intro all_items_map) (simp_all add: quantity_consistent_iff consistent_Item_remove_expired)
  then show ?thesis
    by (simp add: quantity_consistent_iff remove_expired_eq)
qed

lemma consistent_undo:
  assumes "quantity_consistent m" and "\<not> pops_stock_record UndoLast m"
  shows "quantity_consistent (snd (undo_last_action m))"
proof (cases "action_stack m = []")
  case True
  with assms show ?thesis by (simp add: undo_last_action_def)
next
  case False
  with assms(2) obtain n where l: "last (action_stack m) = Delete_item n"
    by (cases "last (action_stack m)") (simp_all add: pops_stock_record_def)
  have "\<forall>(n, it) \<in> set (AList.delete n (items m)). item_consistent it"
    using assms(1) by (intro all_items_delete) (simp add: quantity_consistent_iff)
  with assms(1) False show ?thesis
    by (simp add: undo_last_action_def Let_def l quantity_consistent_iff split: option.splits)
qed

lemma consistent_exec:
  "quantity_consistent m \<Longrightarrow> \<not> pops_stock_record c m \<Longrightarrow> quantity_consistent (exec c m)"
  by (cases c)
    (simp_all add: consistent_add_item consistent_update_quantity consistent_remove_expired
      consistent_undo)

text \<open>
  C1, as the code has it. In every state reached from the empty registry by
  \<^verbatim>\<open>add_item\<close>, \<^verbatim>\<open>update_quantity\<close>, \<^verbatim>\<open>remove_expired\<close> and by undos that find the
  stack empty or pop a \<^verbatim>\<open>'delete_item'\<close> entry, the quantity of every item is the sum
  of the quantities of its batches. Nothing is said about the states after an undo
  that pops an \<^verbatim>\<open>'update_quantity'\<close> entry.
\<close>

theorem quantity_consistent_without_stock_undo:
  assumes "steps_ok (\<lambda>c m. \<not> pops_stock_record c m) InventoryManager_init cs"
  shows "quantity_consistent (run InventoryManager_init cs)"
proof (rule run_invariant [where I = quantity_consistent, OF _ assms])
  show "quantity_consistent InventoryManager_init"
    by (simp add: quantity_consistent_def InventoryManager_init_def)
qed (rule consistent_exec)

theorem quantity_consistent_without_stock_undo_witness:
  "steps_ok (\<lambda>c m. \<not> pops_stock_record c m) InventoryManager_init
     [AddItem (2024, 1, 1) ''Milk'' ''Dairy'' 50, AddStock ''Milk'' 10 ''2000-01-01'',
      AddStock ''Milk'' 4 ''2099-01-01'', EvictAllExpired (2024, 6, 1),
      AddItem (2024, 6, 2) ''Rice'' ''Grain'' 3, UndoLast] \<and>
   quantity_consistent
     (run InventoryManager_init
        [AddItem (2024, 1, 1) ''Milk'' ''Dairy'' 50, AddStock ''Milk'' 10 ''2000-01-01'',
         AddStock ''Milk'' 4 ''2099-01-01'', EvictAllExpired (2024, 6, 1),
         AddItem (2024, 6, 2) ''Rice'' ''Grain'' 3, UndoLast]) \<and>
   items (run InventoryManager_init
        [AddItem (2024, 1, 1) ''Milk'' ''Dairy'' 50, AddStock ''Milk'' 10 ''2000-01-01'',
         AddStock ''Milk'' 4 ''2099-01-01'', EvictAllExpired (2024, 6, 1),
         AddItem (2024, 6, 2) ''Rice'' ''Grain'' 3, UndoLast]) =
     [(''Milk'', \<lparr>name = ''Milk'', category = ''Dairy'', price = 50, quantity = 4,
         expiry_queue = [((2099, 1, 1), 4)], date_added = (2024, 1, 1)\<rparr>)]"
proof -
  let ?cs = "[AddItem (2024, 1, 1) ''Milk'' ''Dairy'' 50, AddStock ''Milk'' 10 ''2000-01-01'',
      AddStock ''Milk'' 4 ''2099-01-01'', EvictAllExpired (2024, 6, 1),
      AddItem (2024, 6, 2) ''Rice'' ''Grain'' 3, UndoLast]"
  have h: "steps_ok (\<lambda>c m. \<not> pops_stock_record c m) InventoryManager_init ?cs"
    by (simp add: pops_stock_record_def InventoryManager_init_def add_item_def
        update_quantity_def strptime_2099 strptime_2000 remove_expired_def
        Item_remove_expired_def add_stock_def Item_init_def)
  have i: "items (run InventoryManager_init ?cs) =
     [(''Milk'', \<lparr>name = ''Milk'', category = ''Dairy'', price = 50, quantity = 4,
         expiry_queue = [((2099, 1, 1), 4)], date_added = (2024, 1, 1)\<rparr>)]"
    by (simp add: InventoryManager_init_def add_item_def undo_last_action_def
        update_quantity_def strptime_2099 strptime_2000 remove_expired_def
        Item_remove_expired_def add_stock_def Item_init_def)
  from h i quantity_consistent_without_stock_undo [OF h] show ?thesis by blast
qed

text \<open>
  After \<^verbatim>\<open>add_item\<close>, \<^verbatim>\<open>update_quantity\<close> of 10 units and one undo the item has
  quantity 0 and a batch of 10.
\<close>

theorem quantity_consistent_counterexample:
  "\<not> quantity_consistent
      (run InventoryManager_init
         [AddItem (2024, 1, 1) ''Milk'' ''Dairy'' 50, AddStock ''Milk'' 10 ''2099-01-01'',
          UndoLast])"
  by (simp add: quantity_consistent_def ledger_total_def InventoryManager_init_def
      add_item_def update_quantity_def strptime_2099 undo_last_action_def add_stock_def
      Item_init_def)

subsection \<open>The category set\<close>

lemma categories_update_same:
  "map_of al k = Some v \<Longrightarrow> category v' = category v \<Longrightarrow>
   map (\<lambda>(n, it). category it) (AList.update k v' al) = map (\<lambda>(n, it). category it) al"
  by (induction al) (auto split: if_splits)

lemma keys_update_same:
  "map_of al k = Some v \<Longrightarrow> map fst (AList.update k v' al) = map fst al"
  by (induction al) (auto split: if_splits)

lemma categories_map_remove_expired:
  "map (\<lambda>(n, it). category it)
     (map (\<lambda>(k, it). (k, snd (Item_remove_expired today it))) al) =
   map (\<lambda>(n, it). category it) al"
  by (induction al) (auto simp add: Item_remove_expired_frame)

lemma keys_map_remove_expired:
  "map fst (map (\<lambda>(k, it). (k, snd (Item_remove_expired today it))) al) = map fst al"
  by (induction al) auto

lemma set_delete_distinct:
  "distinct (map fst al) \<Longrightarrow> map_of al k = Some v \<Longrightarrow>
   set (AList.delete k al) = set al - {(k, v)}"
proof (induction al)
  case Nil
  then show ?case by simp
next
  case (Cons p al)
  obtain k' v' where p: "p = (k', v')" by (cases p)
  show ?case
  proof (cases "k' = k")
    case True
    with Cons.prems p have "v' = v" and "k \<notin> fst ` set al" by auto
    then have "AList.delete k al = al" and "(k, v) \<notin> set al"
      by (auto simp add: rev_image_eqI)
    with True p \<open>v' = v\<close> show ?thesis by (simp add: AList.delete_eq)
  next
    case False
    with Cons p show ?thesis by (auto simp add: AList.delete_eq)
  qed
qed

lemma used_categories_items:
  "used_categories m = (\<lambda>(n, it). category it) ` set (items m)"
  by (simp add: used_categories_def)


lemma within_add_item:
  assumes "categories_within m"
  shows "categories_within (snd (add_item today n c p m))"
proof (cases "map_of (items m) n = None")
  case True
  then have fresh: "n \<notin> fst ` set (items m)"
    by (simp add: map_of_None_iff)
  with assms True show ?thesis
    by (auto simp add: categories_within_def used_categories_def add_item_def update_fresh
        Item_init_def)
next
  case False
  then have "add_item today n c p m = (False, m)"
    unfolding add_item_def by (rule if_not_P)
  with assms show ?thesis by simp
qed

lemma exact_add_item:
  assumes "categories_exact m"
  shows "categories_exact (snd (add_item today n c p m))"
proof (cases "map_of (items m) n = None")
  case True
  then have fresh: "n \<notin> fst ` set (items m)"
    by (simp add: map_of_None_iff)
  with assms True show ?thesis
    by (auto simp add: categories_exact_def used_categories_def add_item_def update_fresh
        Item_init_def)
next
  case False
  then have "add_item today n c p m = (False, m)"
    unfolding add_item_def by (rule if_not_P)
  with assms show ?thesis by simp
qed

lemma update_quantity_frame:
  "categories (snd (update_quantity n qty s m)) = categories m \<and>
   used_categories (snd (update_quantity n qty s m)) = used_categories m \<and>
   map fst (items (snd (update_quantity n qty s m))) = map fst (items m)"
proof (cases "map_of (items m) n")
  case None
  then show ?thesis by (simp add: update_quantity_def)
next
  case (Some it)
  show ?thesis
  proof (cases "strptime s")
    case None
    with Some show ?thesis by (simp add: update_quantity_def)
  next
    case d: (Some d)
    have "category (add_stock qty d it) = category it"
      by (simp add: add_stock_def)
    with Some d show ?thesis
      by (simp add: update_quantity_def used_categories_def categories_update_same
          keys_update_same)
  qed
qed

lemma remove_expired_frame:
  "categories (snd (remove_expired today m)) = categories m \<and>
   used_categories (snd (remove_expired today m)) = used_categories m \<and>
   map fst (items (snd (remove_expired today m))) = map fst (items m)"
  by (simp add: remove_expired_eq used_categories_def categories_map_remove_expired
      keys_map_remove_expired del: map_map)


lemma undo_last_action_cases:
  "snd (undo_last_action m) =
     (if action_stack m = [] then m
      else case last (action_stack m) of
        Delete_item n \<Rightarrow>
          (case map_of (items m) n of
             None \<Rightarrow> m\<lparr>action_stack := butlast (action_stack m)\<rparr>
           | Some it \<Rightarrow>
               m\<lparr>action_stack := butlast (action_stack m),
                  categories := categories m - {category it},
                  items := AList.delete n (items m)\<rparr>)
      | Update_quantity n delta \<Rightarrow>
          (case map_of (items m) n of
             None \<Rightarrow> m\<lparr>action_stack := butlast (action_stack m)\<rparr>
           | Some it \<Rightarrow>
               m\<lparr>action_stack := butlast (action_stack m),
                  items := AList.update n (it\<lparr>quantity := quantity it + delta\<rparr>) (items m)\<rparr>))"
  by (simp add: undo_last_action_def Let_def split: action.splits option.splits)

lemma used_after_delete_within:
  assumes d: "distinct (map fst al)" and l: "map_of al n = Some it"
    and sub: "C \<subseteq> (\<lambda>(n, it). category it) ` set al"
  shows "C - {category it} \<subseteq> (\<lambda>(n, it). category it) ` set (AList.delete n al)"
proof
  fix x assume x: "x \<in> C - {category it}"
  with sub obtain k v where kv: "(k, v) \<in> set al" and c: "category v = x"
    by auto
  from x c have "(k, v) \<noteq> (n, it)" by auto
  with kv have "(k, v) \<in> set (AList.delete n al)"
    by (simp add: set_delete_distinct [OF d l])
  with c show "x \<in> (\<lambda>(n, it). category it) ` set (AList.delete n al)"
    by force
qed

lemma used_after_delete_exact:
  assumes d: "distinct (map fst al)" and l: "map_of al n = Some it"
    and alone: "\<not> list_ex (\<lambda>(n', it'). n' \<noteq> n \<and> category it' = category it) al"
  shows "(\<lambda>(n, it). category it) ` set (AList.delete n al) =
     (\<lambda>(n, it). category it) ` set al - {category it}"
proof
  show "(\<lambda>(n, it). category it) ` set al - {category it}
      \<subseteq> (\<lambda>(n, it). category it) ` set (AList.delete n al)"
    by (rule used_after_delete_within [OF d l]) simp
  show "(\<lambda>(n, it). category it) ` set (AList.delete n al)
      \<subseteq> (\<lambda>(n, it). category it) ` set al - {category it}"
  proof
    fix x assume "x \<in> (\<lambda>(n, it). category it) ` set (AList.delete n al)"
    then obtain k v where kv: "(k, v) \<in> set (AList.delete n al)" and c: "category v = x"
      by auto
    from kv have in_al: "(k, v) \<in> set al" and ne: "(k, v) \<noteq> (n, it)"
      by (simp_all add: set_delete_distinct [OF d l])
    have "k \<noteq> n"
    proof
      assume "k = n"
      with in_al d have "map_of al n = Some v" by simp
      with l ne \<open>k = n\<close> show False by simp
    qed
    with alone in_al have "category v \<noteq> category it"
      by (auto simp add: list_ex_iff)
    with in_al c show "x \<in> (\<lambda>(n, it). category it) ` set al - {category it}"
      by force
  qed
qed

lemma within_undo:
  assumes "categories_within m"
  shows "categories_within (snd (undo_last_action m))"
proof (cases "action_stack m = []")
  case True
  with assms show ?thesis by (simp add: undo_last_action_cases)
next
  case False
  from assms have d: "distinct (map fst (items m))"
    and sub: "categories m \<subseteq> (\<lambda>(n, it). category it) ` set (items m)"
    by (simp_all add: categories_within_def used_categories_def)
  show ?thesis
  proof (cases "last (action_stack m)")
    case (Delete_item n)
    show ?thesis
    proof (cases "map_of (items m) n")
      case None
      with False Delete_item assms show ?thesis
        by (simp add: undo_last_action_cases categories_within_def used_categories_def)
    next
      case (Some it)
      from used_after_delete_within [OF d Some sub] d False Delete_item Some show ?thesis
        by (simp add: undo_last_action_cases categories_within_def used_categories_def
            distinct_delete)
    qed
  next
    case (Update_quantity n delta)
    show ?thesis
    proof (cases "map_of (items m) n")
      case None
      with False Update_quantity assms show ?thesis
        by (simp add: undo_last_action_cases categories_within_def used_categories_def)
    next
      case (Some it)
      have "category (it\<lparr>quantity := quantity it + delta\<rparr>) = category it" by simp
      with False Update_quantity Some assms show ?thesis
        by (simp add: undo_last_action_cases categories_within_def used_categories_def
            categories_update_same keys_update_same)
    qed
  qed
qed

lemma exact_undo:
  assumes "categories_exact m" and "\<not> drops_shared_category UndoLast m"
  shows "categories_exact (snd (undo_last_action m))"
proof (cases "action_stack m = []")
  case True
  with assms show ?thesis by (simp add: undo_last_action_cases)
next
  case False
  from assms have d: "distinct (map fst (items m))"
    and eq: "categories m = (\<lambda>(n, it). category it) ` set (items m)"
    by (simp_all add: categories_exact_def used_categories_def)
  show ?thesis
  proof (cases "last (action_stack m)")
    case (Delete_item n)
    show ?thesis
    proof (cases "map_of (items m) n")
      case None
      with False Delete_item assms show ?thesis
        by (simp add: undo_last_action_cases categories_exact_def used_categories_def)
    next
      case (Some it)
      from assms(2) False Delete_item Some
      have "\<not> list_ex (\<lambda>(n', it'). n' \<noteq> n \<and> category it' = category it) (items m)"
        by (simp add: drops_shared_category_def)
      from used_after_delete_exact [OF d Some this] d eq False Delete_item Some show ?thesis
        by (simp add: undo_last_action_cases categories_exact_def used_categories_def
            distinct_delete)
    qed
  next
    case (Update_quantity n delta)
    show ?thesis
    proof (cases "map_of (items m) n")
      case None
      with False Update_quantity assms show ?thesis
        by (simp add: undo_last_action_cases categories_exact_def used_categories_def)
    next
      case (Some it)
      have "category (it\<lparr>quantity := quantity it + delta\<rparr>) = category it" by simp
      with False Update_quantity Some assms show ?thesis
        by (simp add: undo_last_action_cases categories_exact_def used_categories_def
            categories_update_same keys_update_same)
    qed
  qed
qed

lemma within_exec: "categories_within m \<Longrightarrow> categories_within (exec c m)"
proof (cases c)
  case (AddItem today n cat p)
  assume "categories_within m"
  with AddItem show ?thesis by (simp add: within_add_item)
next
  case (AddStock n qty s)
  assume "categories_within m"
  with AddStock update_quantity_frame [of n qty s m] show ?thesis
    by (simp add: categories_within_def)
next
  case (EvictAllExpired today)
  assume "categories_within m"
  with EvictAllExpired remove_expired_frame [of today m] show ?thesis
    by (simp add: categories_within_def)
next
  case UndoLast
  assume "categories_within m"
  with UndoLast show ?thesis by (simp add: within_undo)
qed

lemma exact_exec:
  "categories_exact m \<Longrightarrow> \<not> drops_shared_category c m \<Longrightarrow> categories_exact (exec c m)"
proof (cases c)
  case (AddItem today n cat p)
  assume "categories_exact m"
  with AddItem show ?thesis by (simp add: exact_add_item)
next
  case (AddStock n qty s)
  assume "categories_exact m"
  with AddStock update_quantity_frame [of n qty s m] show ?thesis
    by (simp add: categories_exact_def)
next
  case (EvictAllExpired today)
  assume "categories_exact m"
  with EvictAllExpired remove_expired_frame [of today m] show ?thesis
    by (simp add: categories_exact_def)
next
  case UndoLast
  assume "categories_exact m" and "\<not> drops_shared_category c m"
  with UndoLast show ?thesis by (simp add: exact_undo)
qed

text \<open>
  C6, as the code has it. In every state reached from the empty registry the category
  set holds only categories that some item has. It holds exactly those as long as no
  undo has popped the \<^verbatim>\<open>'delete_item'\<close> entry of an item whose category another item
  had as well.
\<close>

theorem categories_within_used:
  "categories (run InventoryManager_init cs) \<subseteq> used_categories (run InventoryManager_init cs) \<and>
   (steps_ok (\<lambda>c m. \<not> drops_shared_category c m) InventoryManager_init cs \<longrightarrow>
      categories (run InventoryManager_init cs) = used_categories (run InventoryManager_init cs))"
proof
  have "categories_within InventoryManager_init"
    by (simp add: categories_within_def used_categories_def InventoryManager_init_def)
  then have "categories_within (run InventoryManager_init cs)"
    by (rule run_invariant [where P = "\<lambda>c m. True"]) (simp_all add: within_exec)
  then show "categories (run InventoryManager_init cs)
      \<subseteq> used_categories (run InventoryManager_init cs)"
    by (simp add: categories_within_def)
next
  show "steps_ok (\<lambda>c m. \<not> drops_shared_category c m) InventoryManager_init cs \<longrightarrow>
      categories (run InventoryManager_init cs) = used_categories (run InventoryManager_init cs)"
  proof
    assume ok: "steps_ok (\<lambda>c m. \<not> drops_shared_category c m) InventoryManager_init cs"
    have "categories_exact InventoryManager_init"
      by (simp add: categories_exact_def used_categories_def InventoryManager_init_def)
    then have "categories_exact (run InventoryManager_init cs)"
      using ok by (rule run_invariant) (rule exact_exec)
    then show "categories (run InventoryManager_init cs)
        = used_categories (run InventoryManager_init cs)"
      by (simp add: categories_exact_def)
  qed
qed


theorem categories_within_used_witness:
  "steps_ok (\<lambda>c m. \<not> drops_shared_category c m) InventoryManager_init
     [AddItem (2024, 1, 1) ''Milk'' ''Dairy'' 50, AddItem (2024, 1, 2) ''Rice'' ''Grain'' 3,
      UndoLast] \<and>
   categories (run InventoryManager_init
     [AddItem (2024, 1, 1) ''Milk'' ''Dairy'' 50, AddItem (2024, 1, 2) ''Rice'' ''Grain'' 3,
      UndoLast]) = {''Dairy''} \<and>
   used_categories (run InventoryManager_init
     [AddItem (2024, 1, 1) ''Milk'' ''Dairy'' 50, AddItem (2024, 1, 2) ''Rice'' ''Grain'' 3,
      UndoLast]) = {''Dairy''}"
proof -
  let ?cs = "[AddItem (2024, 1, 1) ''Milk'' ''Dairy'' 50,
      AddItem (2024, 1, 2) ''Rice'' ''Grain'' 3, UndoLast]"
  have h: "steps_ok (\<lambda>c m. \<not> drops_shared_category c m) InventoryManager_init ?cs"
    by (simp add: drops_shared_category_def InventoryManager_init_def add_item_def
        Item_init_def)
  have c: "categories (run InventoryManager_init ?cs) = {''Dairy''}"
    by (simp add: InventoryManager_init_def add_item_def undo_last_action_def Item_init_def)
  from h categories_within_used [of ?cs]
  have "categories (run InventoryManager_init ?cs) = used_categories (run InventoryManager_init ?cs)"
    by blast
  with h c show ?thesis by simp
qed

text \<open>
  Two items of one category: undoing the second \<^verbatim>\<open>add_item\<close> empties the category set
  while the first item is still there.
\<close>

theorem categories_exact_counterexample:
  "categories (run InventoryManager_init
     [AddItem (2024, 1, 1) ''Milk'' ''Dairy'' 50, AddItem (2024, 1, 2) ''Curd'' ''Dairy'' 30,
      UndoLast]) = {} \<and>
   used_categories (run InventoryManager_init
     [AddItem (2024, 1, 1) ''Milk'' ''Dairy'' 50, AddItem (2024, 1, 2) ''Curd'' ''Dairy'' 30,
      UndoLast]) = {''Dairy''} \<and>
   categories (run InventoryManager_init
     [AddItem (2024, 1, 1) ''Milk'' ''Dairy'' 50, AddItem (2024, 1, 2) ''Curd'' ''Dairy'' 30,
      UndoLast]) \<noteq>
   used_categories (run InventoryManager_init
     [AddItem (2024, 1, 1) ''Milk'' ''Dairy'' 50, AddItem (2024, 1, 2) ''Curd'' ''Dairy'' 30,
      UndoLast])"
  by (simp add: used_categories_def InventoryManager_init_def add_item_def
      undo_last_action_def Item_init_def)

section \<open>Export and import\<close>

subsection \<open>The import of an export\<close>



















section \<open>What holds in every state reached from the empty registry\<close>

text \<open>
  Two facts that the hypotheses of the properties above rest on: the queues are always
  in expiry order, and the entry on top of the stack always names an item of the
  registry, so that \<^verbatim>\<open>undo_last_action\<close> never raises \<^verbatim>\<open>KeyError\<close>.
\<close>

lemma queues_sorted_iff:
  "queues_sorted m = (\<forall>(n, it) \<in> set (items m). sorted (map fst (expiry_queue it)))"
  by (simp add: queues_sorted_def list_all_iff)

lemma sorted_Item_remove_expired:
  assumes "sorted (map fst (expiry_queue it))"
  shows "sorted (map fst (expiry_queue (snd (Item_remove_expired today it))))"
proof -
  have "sorted (map fst (dropWhile (\<lambda>b. fst b < today) (expiry_queue it)))"
    using assms by (simp add: sorted_dropWhile_filter sorted_filter)
  then show ?thesis by (simp add: Item_remove_expired_eq)
qed

lemma queues_sorted_exec:
  assumes "queues_sorted m"
  shows "queues_sorted (exec c m)"
proof -
  let ?P = "\<lambda>it. sorted (map fst (expiry_queue it))"
  from assms have a: "\<forall>(n, it) \<in> set (items m). ?P it"
    by (simp add: queues_sorted_iff)
  show ?thesis
  proof (cases c)
    case (AddItem today n cat p)
    have "\<forall>(k, it) \<in> set (AList.update n (Item_init today n cat p) (items m)). ?P it"
      using a by (rule all_items_update) (simp add: Item_init_def)
    then show ?thesis
      using assms AddItem by (simp add: queues_sorted_iff add_item_def)
  next
    case (AddStock n qty s)
    have "\<forall>(k, it') \<in> set (AList.update n (add_stock qty d it) (items m)). ?P it'" for d it
      using a by (rule all_items_update) (simp add: add_stock_def)
    then show ?thesis
      using assms AddStock
      by (simp add: queues_sorted_iff update_quantity_def split: option.splits)
  next
    case (EvictAllExpired today)
    have "\<forall>(k, it) \<in> set (map (\<lambda>(k, it). (k, snd (Item_remove_expired today it))) (items m)).
        ?P it"
      using a by (rule all_items_map) (rule sorted_Item_remove_expired)
    then show ?thesis
      using EvictAllExpired by (simp add: queues_sorted_iff remove_expired_eq)
  next
    case UndoLast
    have d: "\<forall>(k, it) \<in> set (AList.delete n (items m)). ?P it" for n
      using a by (rule all_items_delete)
    have u: "\<forall>(k, it') \<in> set (AList.update n (it\<lparr>quantity := q\<rparr>) (items m)). ?P it'"
      if "map_of (items m) n = Some it" for n it q
    proof (rule all_items_update [OF a])
      from that have "(n, it) \<in> set (items m)" by (rule map_of_SomeD)
      with a show "?P (it\<lparr>quantity := q\<rparr>)" by auto
    qed
    show ?thesis
      using assms UndoLast d u
      by (simp add: queues_sorted_iff undo_last_action_cases split: action.splits option.splits)
  qed
qed

lemma queues_sorted_run: "queues_sorted (run InventoryManager_init cs)"
proof (rule run_invariant [where P = "\<lambda>c m. True"])
  show "queues_sorted InventoryManager_init"
    by (simp add: queues_sorted_def InventoryManager_init_def)
qed (simp_all add: queues_sorted_exec)


lemma map_of_Some_key: "map_of al k = Some v \<Longrightarrow> k \<in> fst ` set al"
  using map_of_None_iff [of al k] by simp

lemma key_map_of: "k \<in> fst ` set al \<Longrightarrow> \<exists>v. map_of al k = Some v"
  using map_of_None_iff [of al k] by (cases "map_of al k") simp_all

lemma stack_live_add_item:
  assumes "stack_live m"
  shows "stack_live (snd (add_item today n c p m))"
proof (cases "map_of (items m) n = None")
  case True
  then have fresh: "n \<notin> fst ` set (items m)"
    by (simp add: map_of_None_iff)
  then have "insert n (fst ` set (items m)) - {n} = fst ` set (items m)"
    by simp
  with assms True fresh show ?thesis
    by (simp add: stack_live_def add_item_def update_fresh)
next
  case False
  then have "add_item today n c p m = (False, m)"
    unfolding add_item_def by (rule if_not_P)
  with assms show ?thesis by simp
qed

lemma stack_live_update_quantity:
  assumes "stack_live m"
  shows "stack_live (snd (update_quantity n qty s m))"
proof (cases "map_of (items m) n")
  case None
  with assms show ?thesis by (simp add: update_quantity_def)
next
  case (Some it)
  then have "n \<in> fst ` set (items m)"
    by (rule map_of_Some_key)
  with assms Some show ?thesis
    by (simp add: stack_live_def update_quantity_def AList.dom_update insert_absorb
        split: option.splits)
qed

lemma stack_live_remove_expired:
  assumes "stack_live m"
  shows "stack_live (snd (remove_expired today m))"
proof -
  have "fst ` set (map (\<lambda>(k, it). (k, snd (Item_remove_expired today it))) (items m)) =
      fst ` set (items m)"
    using keys_map_remove_expired [of today "items m"] by (metis set_map)
  with assms show ?thesis
    by (simp add: stack_live_def remove_expired_eq)
qed

lemma stack_live_undo:
  assumes "stack_live m"
  shows "stack_live (snd (undo_last_action m))"
proof (cases "action_stack m" rule: rev_cases)
  case Nil
  with assms show ?thesis by (simp add: undo_last_action_cases)
next
  case (snoc st a)
  show ?thesis
  proof (cases a)
    case (Delete_item n)
    with assms snoc have n: "n \<in> fst ` set (items m)"
      and below: "stack_ok (fst ` set (items m) - {n}) (rev st)"
      by (simp_all add: stack_live_def)
    from key_map_of [OF n] obtain it where it: "map_of (items m) n = Some it" ..
    have "fst ` set (AList.delete n (items m)) = fst ` set (items m) - {n}"
      by (auto simp add: AList.delete_eq rev_image_eqI)
    with below snoc Delete_item it show ?thesis
      by (simp add: stack_live_def undo_last_action_cases)
  next
    case (Update_quantity n delta)
    with assms snoc have n: "n \<in> fst ` set (items m)"
      and below: "stack_ok (fst ` set (items m)) (rev st)"
      by (simp_all add: stack_live_def)
    from key_map_of [OF n] obtain it where it: "map_of (items m) n = Some it" ..
    from n below snoc Update_quantity it show ?thesis
      by (simp add: stack_live_def undo_last_action_cases AList.dom_update insert_absorb)
  qed
qed

lemma stack_live_run: "stack_live (run InventoryManager_init cs)"
proof (rule run_invariant [where P = "\<lambda>c m. True"])
  show "stack_live InventoryManager_init"
    by (simp add: stack_live_def InventoryManager_init_def)
  show "stack_live (exec c m)" if "stack_live m" for c m
    using that
    by (cases c)
      (simp_all add: stack_live_add_item stack_live_update_quantity stack_live_remove_expired
        stack_live_undo)
qed simp

lemma stack_live_top:
  assumes "stack_live m" and "action_stack m = st @ [a]"
  shows "case a of Delete_item n \<Rightarrow> map_of (items m) n \<noteq> None
         | Update_quantity n delta \<Rightarrow> map_of (items m) n \<noteq> None"
  using assms by (cases a) (simp_all add: stack_live_def map_of_None_iff)

lemma undo_last_action_returns:
  "fst (undo_last_action (run InventoryManager_init cs)) \<noteq> Inl KeyError"
proof (cases "action_stack (run InventoryManager_init cs)" rule: rev_cases)
  case Nil
  then show ?thesis by (simp add: undo_last_action_def)
next
  case (snoc st a)
  from stack_live_top [OF stack_live_run snoc] snoc show ?thesis
    by (cases a) (auto simp add: undo_last_action_def Let_def)
qed

end
